theory Spec2Isabelle
  imports Main
begin

section \<open>The address book of \<^verbatim>\<open>src/address_book.py\<close>\<close>

text \<open>
  A Python \<^verbatim>\<open>str\<close> is a sequence of code points and \<^verbatim>\<open>len\<close> counts code points.
  It is modelled as \<^typ>\<open>string\<close>, one \<^typ>\<open>char\<close> per code point, which covers the
  code points U+0000 to U+00FF (ASCII and the Latin-1 supplement); \<open>of_char c\<close> is the
  code point of \<open>c\<close>. Equality of strings is equality of the code point sequences,
  as \<^verbatim>\<open>==\<close> on \<^verbatim>\<open>str\<close> is.

  Mutation of \<^verbatim>\<open>self\<close> is explicit state passing: a method takes the object and
  returns the updated one. A method with a statement that can raise returns a sum,
  \<open>Inl\<close> carrying the exception, so that "no error" is the statement that the
  result is \<open>Inr\<close>. Objects are held by value: the dictionary of the address book
  maps a name to the record itself.
\<close>

subsection \<open>Built-ins of the language used by the module\<close>

datatype py_error = IndexError | KeyError

text \<open>
  \<^verbatim>\<open>str.isnumeric()\<close>: true when the string has at least one character and every
  character has the Unicode property Numeric_Type = Decimal, Digit or Numeric.
  Below U+0100 these are the digits U+0030..U+0039, the superscripts
  U+00B2, U+00B3, U+00B9 and the vulgar fractions U+00BC, U+00BD, U+00BE.
\<close>

definition numeric_char :: "char \<Rightarrow> bool" where
  "numeric_char c =
     (let n = (of_char c :: nat)
      in (48 \<le> n \<and> n \<le> 57) \<or> n = 178 \<or> n = 179 \<or> n = 185
         \<or> n = 188 \<or> n = 189 \<or> n = 190)"

definition isnumeric :: "string \<Rightarrow> bool" where
  "isnumeric s = (s \<noteq> [] \<and> list_all numeric_char s)"

text \<open>
  \<^verbatim>\<open>del xs[i]\<close> and \<^verbatim>\<open>xs[i] = v\<close> for a non-negative index: both raise
  IndexError when the index is not below the length.
\<close>

definition list_del :: "'a list \<Rightarrow> nat \<Rightarrow> py_error + 'a list" where
  "list_del xs i = (if i < length xs then Inr (take i xs @ drop (Suc i) xs) else Inl IndexError)"

definition list_set :: "'a list \<Rightarrow> nat \<Rightarrow> 'a \<Rightarrow> py_error + 'a list" where
  "list_set xs i v = (if i < length xs then Inr (xs[i := v]) else Inl IndexError)"

text \<open>\<^verbatim>\<open>sep.join(xs)\<close> on a sequence of strings.\<close>

fun join :: "string \<Rightarrow> string list \<Rightarrow> string" where
  "join sep [] = []"
| "join sep [x] = x"
| "join sep (x # y # ys) = x @ sep @ join sep (y # ys)"

text \<open>
  \<^verbatim>\<open>d.pop(k)\<close> without a default raises KeyError on a missing key; the popped value
  is not used by its caller here, so only the dictionary is returned.
\<close>

definition dict_pop :: "('k \<rightharpoonup> 'v) \<Rightarrow> 'k \<Rightarrow> py_error + ('k \<rightharpoonup> 'v)" where
  "dict_pop d k = (if k \<in> dom d then Inr (d(k := None)) else Inl KeyError)"

subsection \<open>Field, Name, Phone\<close>

text \<open>
  \<^verbatim>\<open>Field\<close> wraps one string in the attribute \<^verbatim>\<open>value\<close>; \<^verbatim>\<open>Name\<close> and \<^verbatim>\<open>Phone\<close>
  are subclasses that add nothing.
\<close>

datatype Field = Field (field_value: string)

type_synonym Name = Field
type_synonym Phone = Field

abbreviation Name :: "string \<Rightarrow> Name" where
  "Name \<equiv> Field"

abbreviation Phone :: "string \<Rightarrow> Phone" where
  "Phone \<equiv> Field"

definition str_Field :: "Field \<Rightarrow> string" where
  "str_Field self = field_value self"

subsection \<open>Record\<close>

record Record =
  name :: Name
  phones :: "Phone list"

text \<open>\<^verbatim>\<open>Record.__init__\<close>\<close>

definition Record_init :: "string \<Rightarrow> Record" where
  "Record_init n = \<lparr>name = Name n, phones = []\<rparr>"

text \<open>\<^verbatim>\<open>is_phone_valid\<close> does not read \<^verbatim>\<open>self\<close>.\<close>

definition is_phone_valid :: "string \<Rightarrow> bool" where
  "is_phone_valid phone = (length phone = 10 \<and> isnumeric phone)"

definition add_phone :: "Record \<Rightarrow> string \<Rightarrow> Record" where
  "add_phone self phone =
     (if is_phone_valid phone then self\<lparr>phones := phones self @ [Phone phone]\<rparr> else self)"

text \<open>
  The loop of \<^verbatim>\<open>remove_phone\<close> over \<^verbatim>\<open>enumerate(self.phones)\<close>: \<open>index\<close> is the
  counter of \<^verbatim>\<open>enumerate\<close>, the last argument is what is left to iterate, and
  \<open>phs\<close> is \<^verbatim>\<open>self.phones\<close>. The loop leaves at the first match.
\<close>

fun remove_phone_loop :: "Phone list \<Rightarrow> string \<Rightarrow> nat \<Rightarrow> Phone list \<Rightarrow> py_error + Phone list" where
  "remove_phone_loop phs phone index [] = Inr phs"
| "remove_phone_loop phs phone index (p # rest) =
     (if field_value p = phone then list_del phs index
      else remove_phone_loop phs phone (Suc index) rest)"

definition remove_phone :: "Record \<Rightarrow> string \<Rightarrow> py_error + Record" where
  "remove_phone self phone =
     (case remove_phone_loop (phones self) phone 0 (phones self) of
        Inl e \<Rightarrow> Inl e
      | Inr phs \<Rightarrow> Inr (self\<lparr>phones := phs\<rparr>))"

fun edit_phone_loop :: "Phone list \<Rightarrow> string \<Rightarrow> string \<Rightarrow> nat \<Rightarrow> Phone list \<Rightarrow> py_error + Phone list" where
  "edit_phone_loop phs old_value new_value index [] = Inr phs"
| "edit_phone_loop phs old_value new_value index (p # rest) =
     (if field_value p = old_value then list_set phs index (Phone new_value)
      else edit_phone_loop phs old_value new_value (Suc index) rest)"

definition edit_phone :: "Record \<Rightarrow> string \<Rightarrow> string \<Rightarrow> py_error + Record" where
  "edit_phone self old_value new_value =
     (if is_phone_valid new_value then
        (case edit_phone_loop (phones self) old_value new_value 0 (phones self) of
           Inl e \<Rightarrow> Inl e
         | Inr phs \<Rightarrow> Inr (self\<lparr>phones := phs\<rparr>))
      else Inr self)"

text \<open>\<^verbatim>\<open>find_phone\<close>: \<open>None\<close> is Python's \<^verbatim>\<open>None\<close>.\<close>

fun find_phone_loop :: "Phone list \<Rightarrow> string \<Rightarrow> Phone option" where
  "find_phone_loop [] phone = None"
| "find_phone_loop (p # rest) phone =
     (if field_value p = phone then Some p else find_phone_loop rest phone)"

definition find_phone :: "Record \<Rightarrow> string \<Rightarrow> Phone option" where
  "find_phone self phone = find_phone_loop (phones self) phone"

text \<open>\<^verbatim>\<open>Record.__str__\<close>\<close>

definition str_Record :: "Record \<Rightarrow> string" where
  "str_Record self =
     ''Contact name: '' @ field_value (name self) @ '', phones: ''
       @ join ''; '' (map field_value (phones self))"

subsection \<open>AddressBook\<close>

text \<open>A \<^verbatim>\<open>UserDict\<close> keeps its entries in the dictionary \<^verbatim>\<open>self.data\<close>.\<close>

record AddressBook =
  data :: "string \<rightharpoonup> Record"

definition AddressBook_init :: AddressBook where
  "AddressBook_init = \<lparr>data = Map.empty\<rparr>"

definition add_record :: "AddressBook \<Rightarrow> Record \<Rightarrow> AddressBook" where
  "add_record self record = self\<lparr>data := (data self)(field_value (name record) \<mapsto> record)\<rparr>"

definition find_record :: "AddressBook \<Rightarrow> string \<Rightarrow> Record option" where
  "find_record self n = data self n"

definition delete :: "AddressBook \<Rightarrow> string \<Rightarrow> py_error + AddressBook" where
  "delete self n =
     (if n \<in> dom (data self) then
        (case dict_pop (data self) n of
           Inl e \<Rightarrow> Inl e
         | Inr d \<Rightarrow> Inr (self\<lparr>data := d\<rparr>))
      else Inr self)"

subsection \<open>Notions used in the statements\<close>

text \<open>
  The specification's wording of a valid phone number: exactly 10 characters, every one
  an ASCII decimal digit \<^verbatim>\<open>0\<close> to \<^verbatim>\<open>9\<close>.
\<close>

definition ascii_digit :: "char \<Rightarrow> bool" where
  "ascii_digit c = (48 \<le> (of_char c :: nat) \<and> (of_char c :: nat) \<le> 57)"

definition spec_phone_valid :: "string \<Rightarrow> bool" where
  "spec_phone_valid s = (length s = 10 \<and> list_all ascii_digit s)"

text \<open>Ten times U+00BD, VULGAR FRACTION ONE HALF.\<close>

definition ten_halves :: string where
  "ten_halves =
     [CHR 0xBD, CHR 0xBD, CHR 0xBD, CHR 0xBD, CHR 0xBD,
      CHR 0xBD, CHR 0xBD, CHR 0xBD, CHR 0xBD, CHR 0xBD]"

text \<open>The invariant of a record with respect to the check the code applies.\<close>

definition phones_valid :: "Record \<Rightarrow> bool" where
  "phones_valid r = list_all (\<lambda>p. is_phone_valid (field_value p)) (phones r)"

text \<open>The records that the constructor and the mutating methods can produce.\<close>

inductive reachable :: "Record \<Rightarrow> bool" where
  reachable_init: "reachable (Record_init n)"
| reachable_add: "reachable r \<Longrightarrow> reachable (add_phone r p)"
| reachable_remove: "reachable r \<Longrightarrow> remove_phone r p = Inr r' \<Longrightarrow> reachable r'"
| reachable_edit: "reachable r \<Longrightarrow> edit_phone r old new = Inr r' \<Longrightarrow> reachable r'"

text \<open>The position of the first phone with a given value (the length when there is none).\<close>

fun first_index :: "Phone list \<Rightarrow> string \<Rightarrow> nat" where
  "first_index [] phone = 0"
| "first_index (p # rest) phone =
     (if field_value p = phone then 0 else Suc (first_index rest phone))"

text \<open>
  The display format in the specification's words: the fixed text, the name, and the
  phone values with \<^verbatim>\<open>; \<close> between consecutive ones.
\<close>

definition display_format :: "string \<Rightarrow> string list \<Rightarrow> string" where
  "display_format n ps =
     ''Contact name: '' @ n @ '', phones: ''
       @ (case ps of [] \<Rightarrow> [] | p # rest \<Rightarrow> p @ concat (map (\<lambda>q. ''; '' @ q) rest))"

section \<open>Facts about the loops\<close>

subsection \<open>Validation\<close>

lemma numeric_char_ascii_digit: "ascii_digit c \<Longrightarrow> numeric_char c"
  by (simp add: ascii_digit_def numeric_char_def)

lemma is_phone_valid_of_digits: "spec_phone_valid s \<Longrightarrow> is_phone_valid s"
  by (cases s)
     (auto simp: spec_phone_valid_def is_phone_valid_def isnumeric_def list_all_iff
        numeric_char_ascii_digit)

text \<open>On strings of ASCII characters the check of the code and the specification agree.\<close>

lemma is_phone_valid_ascii:
  assumes "\<forall>c\<in>set s. (of_char c :: nat) < 128"
  shows "is_phone_valid s \<longleftrightarrow> spec_phone_valid s"
proof -
  have "numeric_char c \<longleftrightarrow> ascii_digit c" if "c \<in> set s" for c
    using assms that by (auto simp: numeric_char_def ascii_digit_def Let_def)
  then have "list_all numeric_char s \<longleftrightarrow> list_all ascii_digit s"
    by (simp add: list_all_iff)
  then show ?thesis
    by (cases s) (auto simp: is_phone_valid_def isnumeric_def spec_phone_valid_def)
qed

lemma ten_halves_valid: "is_phone_valid ten_halves"
  by (simp add: ten_halves_def is_phone_valid_def isnumeric_def numeric_char_def)

lemma ten_halves_not_digits: "\<not> list_all ascii_digit ten_halves"
  by (simp add: ten_halves_def ascii_digit_def)

subsection \<open>Searching\<close>

lemma first_match_split:
  "\<exists>q\<in>set phs. field_value q = p \<Longrightarrow>
   \<exists>xs ph ys. phs = xs @ ph # ys \<and> field_value ph = p \<and> (\<forall>q\<in>set xs. field_value q \<noteq> p)"
  using split_list_first_prop [of phs "\<lambda>q. field_value q = p"] by blast

lemma first_index_split:
  "\<forall>q\<in>set xs. field_value q \<noteq> p \<Longrightarrow> field_value ph = p \<Longrightarrow>
   first_index (xs @ ph # ys) p = length xs"
  by (induction xs) auto

lemma find_phone_loop_None:
  "find_phone_loop phs p = None \<longleftrightarrow> (\<forall>q\<in>set phs. field_value q \<noteq> p)"
  by (induction phs) auto

lemma find_phone_loop_present:
  "find_phone_loop phs p = Some (Phone p) \<longleftrightarrow> Phone p \<in> set phs"
  by (induction phs) auto

subsection \<open>Removing\<close>

lemma remove_phone_loop_absent:
  "\<forall>q\<in>set xs. field_value q \<noteq> p \<Longrightarrow> remove_phone_loop phs p i xs = Inr phs"
  by (induction xs arbitrary: i) auto

text \<open>
  The loop started at position \<open>length pre\<close> on the rest of \<open>self.phones\<close>: the
  index it deletes at is the position of the first match.
\<close>

lemma remove_phone_loop_first:
  "\<forall>q\<in>set xs. field_value q \<noteq> p \<Longrightarrow> field_value ph = p \<Longrightarrow>
   remove_phone_loop (pre @ xs @ ph # ys) p (length pre) (xs @ ph # ys) = Inr (pre @ xs @ ys)"
proof (induction xs arbitrary: pre)
  case Nil
  then show ?case by (simp add: list_del_def)
next
  case (Cons x xs)
  from Cons.prems
  have "remove_phone_loop ((pre @ [x]) @ xs @ ph # ys) p (length (pre @ [x])) (xs @ ph # ys)
     = Inr ((pre @ [x]) @ xs @ ys)"
    by (intro Cons.IH) auto
  with Cons.prems show ?case by simp
qed

lemma remove_phone_split:
  assumes "phones r = xs @ ph # ys" and "field_value ph = p"
    and "\<forall>q\<in>set xs. field_value q \<noteq> p"
  shows "remove_phone r p = Inr (r\<lparr>phones := xs @ ys\<rparr>)"
  using remove_phone_loop_first [where pre="[]" and xs=xs and ph=ph and ys=ys and p=p] assms
  by (simp add: remove_phone_def)

lemma remove_phone_absent:
  assumes "\<forall>q\<in>set (phones r). field_value q \<noteq> p"
  shows "remove_phone r p = Inr r"
  using remove_phone_loop_absent [OF assms] by (simp add: remove_phone_def)

lemma remove_phone_loop_subset:
  "remove_phone_loop phs p i xs = Inr phs' \<Longrightarrow> set phs' \<subseteq> set phs"
  by (induction xs arbitrary: i)
     (auto simp: list_del_def split: if_splits dest: in_set_takeD in_set_dropD)

subsection \<open>Editing\<close>

lemma edit_phone_loop_absent:
  "\<forall>q\<in>set xs. field_value q \<noteq> p \<Longrightarrow> edit_phone_loop phs p n i xs = Inr phs"
  by (induction xs arbitrary: i) auto

lemma edit_phone_loop_first:
  "\<forall>q\<in>set xs. field_value q \<noteq> p \<Longrightarrow> field_value ph = p \<Longrightarrow>
   edit_phone_loop (pre @ xs @ ph # ys) p n (length pre) (xs @ ph # ys)
     = Inr (pre @ xs @ Phone n # ys)"
proof (induction xs arbitrary: pre)
  case Nil
  then show ?case by (simp add: list_set_def)
next
  case (Cons x xs)
  from Cons.prems
  have "edit_phone_loop ((pre @ [x]) @ xs @ ph # ys) p n (length (pre @ [x])) (xs @ ph # ys)
     = Inr ((pre @ [x]) @ xs @ Phone n # ys)"
    by (intro Cons.IH) auto
  with Cons.prems show ?case by simp
qed

lemma edit_phone_split:
  assumes "is_phone_valid new" and "phones r = xs @ ph # ys" and "field_value ph = old"
    and "\<forall>q\<in>set xs. field_value q \<noteq> old"
  shows "edit_phone r old new = Inr (r\<lparr>phones := xs @ Phone new # ys\<rparr>)"
  using edit_phone_loop_first [where pre="[]" and xs=xs and ph=ph and ys=ys and p=old and n=new]
    assms
  by (simp add: edit_phone_def)

lemma edit_phone_absent:
  assumes "\<forall>q\<in>set (phones r). field_value q \<noteq> old"
  shows "edit_phone r old new = Inr r"
  using edit_phone_loop_absent [OF assms] by (simp add: edit_phone_def)

lemma edit_phone_invalid: "\<not> is_phone_valid new \<Longrightarrow> edit_phone r old new = Inr r"
  by (simp add: edit_phone_def)

lemma edit_phone_loop_subset:
  "edit_phone_loop phs p n i xs = Inr phs' \<Longrightarrow> set phs' \<subseteq> insert (Phone n) (set phs)"
proof (induction xs arbitrary: i)
  case Nil
  then show ?case by auto
next
  case (Cons x xs)
  then show ?case
    using set_update_subset_insert [of phs i "Phone n"]
    by (auto simp: list_set_def split: if_splits)
qed

subsection \<open>The check of the code is an invariant of the phone list\<close>

lemma phones_valid_init: "phones_valid (Record_init n)"
  by (simp add: phones_valid_def Record_init_def)

lemma phones_valid_add: "phones_valid r \<Longrightarrow> phones_valid (add_phone r p)"
  by (simp add: phones_valid_def add_phone_def)

lemma phones_valid_remove:
  "phones_valid r \<Longrightarrow> remove_phone r p = Inr r' \<Longrightarrow> phones_valid r'"
  using remove_phone_loop_subset
  by (fastforce simp: phones_valid_def remove_phone_def list_all_iff split: sum.splits)

lemma phones_valid_edit:
  "phones_valid r \<Longrightarrow> edit_phone r old new = Inr r' \<Longrightarrow> phones_valid r'"
  using edit_phone_loop_subset
  by (fastforce simp: phones_valid_def edit_phone_def list_all_iff split: sum.splits if_splits)

lemma reachable_phones_valid: "reachable r \<Longrightarrow> phones_valid r"
  by (induction rule: reachable.induct)
     (auto intro: phones_valid_init phones_valid_add phones_valid_remove phones_valid_edit)

subsection \<open>Joining and the dictionary\<close>

lemma join_Cons: "join sep (p # rest) = p @ concat (map (\<lambda>q. sep @ q) rest)"
  by (induction rest arbitrary: p) simp_all

lemma delete_absent: "n \<notin> dom (data b) \<Longrightarrow> delete b n = Inr b"
  by (simp add: delete_def)

lemma delete_total: "delete b n = Inr (b\<lparr>data := (data b)(n := None)\<rparr>)"
proof (cases "n \<in> dom (data b)")
  case True
  then show ?thesis by (simp add: delete_def dict_pop_def)
next
  case False
  then have "(data b)(n := None) = data b" by (auto simp: domIff)
  with False show ?thesis by (simp add: delete_absent)
qed

section \<open>The claims\<close>

subsection \<open>C1: what \<^verbatim>\<open>is_phone_valid\<close> accepts\<close>

text \<open>
  C1 states that \<^verbatim>\<open>is_phone_valid(s)\<close> is true exactly when \<open>s\<close> has length 10 and
  every character is an ASCII decimal digit. The code tests \<^verbatim>\<open>phone.isnumeric()\<close>,
  which also accepts the other characters with a Unicode numeric value: the string of
  ten U+00BD (one half) has length 10, contains no decimal digit, and is accepted.
  The docstring of the method asks for a string that is "10 digits long".
\<close>

theorem is_phone_valid_accepts_ten_halves:
  "length ten_halves = 10 \<and> is_phone_valid ten_halves \<and> \<not> spec_phone_valid ten_halves"
  by (simp add: ten_halves_def is_phone_valid_def isnumeric_def numeric_char_def
      spec_phone_valid_def ascii_digit_def)

subsection \<open>C2: the stored phones\<close>

text \<open>
  C2 states the invariant that every stored phone has exactly 10 characters, all decimal
  digits. The check in \<^verbatim>\<open>add_phone\<close> is \<^verbatim>\<open>is_phone_valid\<close>, so the string of
  ten U+00BD is stored in a freshly constructed record although it contains no decimal
  digit. (With respect to that check itself the invariant does hold: see
  \<open>reachable_phones_valid\<close>.)
\<close>

theorem add_phone_stores_ten_halves:
  "phones (add_phone (Record_init ''John Doe'') ten_halves) = [Phone ten_halves]
   \<and> find_phone (add_phone (Record_init ''John Doe'') ten_halves) ten_halves
       = Some (Phone ten_halves)
   \<and> \<not> spec_phone_valid ten_halves"
  by (simp add: add_phone_def Record_init_def find_phone_def ten_halves_valid
      spec_phone_valid_def ten_halves_not_digits)

subsection \<open>C3: \<^verbatim>\<open>add_phone\<close> followed by \<^verbatim>\<open>find_phone\<close>\<close>

text \<open>
  C3: for a record whose stored phones all passed that check (every record built by the
  constructor and the methods, by \<open>reachable_phones_valid\<close>) and every string \<open>p\<close>,
  \<^verbatim>\<open>add_phone(p)\<close> followed by \<^verbatim>\<open>find_phone(p)\<close> returns a phone with value \<open>p\<close>
  if and only if \<^verbatim>\<open>is_phone_valid(p)\<close>; when \<open>p\<close> is not valid the record is
  unchanged, and when it is valid \<open>p\<close> is appended at the end of the phone list.
\<close>

theorem add_phone_then_find_phone:
  "phones_valid r \<Longrightarrow>
     (find_phone (add_phone r p) p = Some (Phone p) \<longleftrightarrow> is_phone_valid p)
     \<and> (\<not> is_phone_valid p \<longrightarrow> add_phone r p = r)
     \<and> (is_phone_valid p \<longrightarrow> add_phone r p = r\<lparr>phones := phones r @ [Phone p]\<rparr>)"
  by (auto simp: add_phone_def find_phone_def find_phone_loop_present phones_valid_def
      list_all_iff)

theorem add_phone_then_find_phone_witness:
  "phones_valid \<lparr>name = Name ''John Doe'', phones = [Phone ''1234567890'']\<rparr>
   \<and> is_phone_valid ''0987654321''
   \<and> find_phone
        (add_phone \<lparr>name = Name ''John Doe'', phones = [Phone ''1234567890'']\<rparr> ''0987654321'')
        ''0987654321'' = Some (Phone ''0987654321'')
   \<and> add_phone \<lparr>name = Name ''John Doe'', phones = [Phone ''1234567890'']\<rparr> ''0987654321''
       = \<lparr>name = Name ''John Doe'', phones = [Phone ''1234567890'', Phone ''0987654321'']\<rparr>
   \<and> \<not> is_phone_valid ''12345''
   \<and> find_phone
        (add_phone \<lparr>name = Name ''John Doe'', phones = [Phone ''1234567890'']\<rparr> ''12345'')
        ''12345'' \<noteq> Some (Phone ''12345'')
   \<and> add_phone \<lparr>name = Name ''John Doe'', phones = [Phone ''1234567890'']\<rparr> ''12345''
       = \<lparr>name = Name ''John Doe'', phones = [Phone ''1234567890'']\<rparr>"
proof -
  let ?r = "\<lparr>name = Name ''John Doe'', phones = [Phone ''1234567890'']\<rparr>"
  have h: "phones_valid ?r"
    by (simp add: phones_valid_def is_phone_valid_def isnumeric_def numeric_char_def)
  have v: "is_phone_valid ''0987654321''"
    by (simp add: is_phone_valid_def isnumeric_def numeric_char_def)
  have nv: "\<not> is_phone_valid ''12345''"
    by (simp add: is_phone_valid_def)
  from add_phone_then_find_phone [OF h, of "''0987654321''"] v
  have 1: "find_phone (add_phone ?r ''0987654321'') ''0987654321'' = Some (Phone ''0987654321'')
      \<and> add_phone ?r ''0987654321'' = ?r\<lparr>phones := phones ?r @ [Phone ''0987654321'']\<rparr>"
    by blast
  from add_phone_then_find_phone [OF h, of "''12345''"] nv
  have 2: "find_phone (add_phone ?r ''12345'') ''12345'' \<noteq> Some (Phone ''12345'')
      \<and> add_phone ?r ''12345'' = ?r"
    by blast
  from 1 2 h v nv show ?thesis by (simp add: find_phone_def)
qed

subsection \<open>C4: after a successful \<^verbatim>\<open>edit_phone\<close>\<close>

text \<open>
  C4 says that after a successful edit \<^verbatim>\<open>find_phone(old)\<close> returns absent. The loop
  leaves at the first match, and duplicates are permitted: with \<^verbatim>\<open>1234567890\<close> added
  twice, editing it to \<^verbatim>\<open>0987654321\<close> replaces the first entry and the second is
  still found.
\<close>

theorem edit_phone_duplicate_still_found:
  "is_phone_valid ''0987654321''
   \<and> find_phone (add_phone (add_phone (Record_init ''John Doe'') ''1234567890'') ''1234567890'')
         ''1234567890'' = Some (Phone ''1234567890'')
   \<and> edit_phone (add_phone (add_phone (Record_init ''John Doe'') ''1234567890'') ''1234567890'')
         ''1234567890'' ''0987654321''
       = Inr \<lparr>name = Name ''John Doe'', phones = [Phone ''0987654321'', Phone ''1234567890'']\<rparr>
   \<and> find_phone \<lparr>name = Name ''John Doe'', phones = [Phone ''0987654321'', Phone ''1234567890'']\<rparr>
         ''1234567890'' = Some (Phone ''1234567890'')"
  by (simp add: is_phone_valid_def isnumeric_def numeric_char_def add_phone_def Record_init_def
      find_phone_def list_set_def edit_phone_def)

text \<open>
  C4 as amended: when \<open>new\<close> is valid and \<open>old\<close> is present, \<^verbatim>\<open>edit_phone(old, new)\<close>
  raises nothing, keeps the name, and writes \<open>new\<close> at the position of the first phone
  equal to \<open>old\<close>, every other position unchanged; afterwards \<^verbatim>\<open>find_phone(new)\<close>
  returns a phone with value \<open>new\<close>, and \<^verbatim>\<open>find_phone(old)\<close> returns absent exactly
  when \<open>old\<close> differs from \<open>new\<close> and occurred once in the phone list.
\<close>

theorem edit_phone_success:
  assumes "is_phone_valid new" and "find_phone r old \<noteq> None"
  shows "\<exists>r'. edit_phone r old new = Inr r'
          \<and> name r' = name r
          \<and> first_index (phones r) old < length (phones r)
          \<and> field_value (phones r ! first_index (phones r) old) = old
          \<and> phones r' = (phones r)[first_index (phones r) old := Phone new]
          \<and> find_phone r' new = Some (Phone new)
          \<and> (find_phone r' old = None
               \<longleftrightarrow> old \<noteq> new \<and> count_list (map field_value (phones r)) old = 1)"
proof -
  from assms(2) have "\<exists>q\<in>set (phones r). field_value q = old"
    by (auto simp: find_phone_def find_phone_loop_None)
  then obtain xs ph ys where s: "phones r = xs @ ph # ys" "field_value ph = old"
      "\<forall>q\<in>set xs. field_value q \<noteq> old"
    using first_match_split by blast
  have i: "first_index (phones r) old = length xs"
    using s by (simp add: first_index_split)
  have e: "edit_phone r old new = Inr (r\<lparr>phones := xs @ Phone new # ys\<rparr>)"
    using assms(1) s by (rule edit_phone_split)
  have cx: "count_list (map field_value xs) old = 0"
    using s(3) by (auto simp: count_list_0_iff)
  have f_new: "find_phone_loop (xs @ Phone new # ys) new = Some (Phone new)"
    by (simp add: find_phone_loop_present)
  have f_old: "find_phone_loop (xs @ Phone new # ys) old = None
      \<longleftrightarrow> old \<noteq> new \<and> count_list (map field_value ys) old = 0"
    using s(3) by (auto simp: find_phone_loop_None count_list_0_iff)
  show ?thesis
    using e i s(1,2) cx f_new f_old by (auto simp: find_phone_def)
qed

theorem edit_phone_success_witness:
  "is_phone_valid ''0987654321''
   \<and> find_phone \<lparr>name = Name ''John Doe'', phones = [Phone ''5555555555'', Phone ''1234567890'']\<rparr>
        ''1234567890'' \<noteq> None
   \<and> (\<exists>r'. edit_phone
               \<lparr>name = Name ''John Doe'', phones = [Phone ''5555555555'', Phone ''1234567890'']\<rparr>
               ''1234567890'' ''0987654321'' = Inr r'
          \<and> phones r' = [Phone ''5555555555'', Phone ''0987654321'']
          \<and> find_phone r' ''0987654321'' = Some (Phone ''0987654321'')
          \<and> find_phone r' ''1234567890'' = None)"
proof -
  let ?r = "\<lparr>name = Name ''John Doe'', phones = [Phone ''5555555555'', Phone ''1234567890'']\<rparr>"
  have v: "is_phone_valid ''0987654321''"
    by (simp add: is_phone_valid_def isnumeric_def numeric_char_def)
  have f: "find_phone ?r ''1234567890'' \<noteq> None"
    by (simp add: find_phone_def)
  from edit_phone_success [OF v f] v f show ?thesis
    by (auto simp: numeral_2_eq_2)
qed

subsection \<open>C5: when \<^verbatim>\<open>edit_phone\<close> changes nothing, and what it replaces\<close>

text \<open>
  C5: \<^verbatim>\<open>edit_phone(old, new)\<close> returns without error and leaves the record unchanged
  when \<open>new\<close> is not valid, whether or not \<open>old\<close> is stored, and also when no stored
  phone equals \<open>old\<close>; when \<open>new\<close> is valid and \<open>old\<close> is stored, the first phone
  equal to \<open>old\<close> is replaced in place by \<open>new\<close> and nothing else changes.
\<close>

theorem edit_phone_noop_or_replace_first:
  "(\<not> is_phone_valid new \<longrightarrow> edit_phone r old new = Inr r)
   \<and> ((\<forall>q\<in>set (phones r). field_value q \<noteq> old) \<longrightarrow> edit_phone r old new = Inr r)
   \<and> (is_phone_valid new \<longrightarrow>
        (\<forall>xs ph ys. phones r = xs @ ph # ys \<and> field_value ph = old
             \<and> (\<forall>q\<in>set xs. field_value q \<noteq> old)
           \<longrightarrow> edit_phone r old new = Inr (r\<lparr>phones := xs @ Phone new # ys\<rparr>)))"
  by (simp add: edit_phone_invalid edit_phone_absent edit_phone_split)

theorem edit_phone_noop_or_replace_first_witness:
  "\<not> is_phone_valid ''09876x4321''
   \<and> edit_phone \<lparr>name = Name ''John Doe'', phones = [Phone ''1234567890'']\<rparr>
        ''1234567890'' ''09876x4321''
       = Inr \<lparr>name = Name ''John Doe'', phones = [Phone ''1234567890'']\<rparr>
   \<and> edit_phone \<lparr>name = Name ''John Doe'', phones = [Phone ''1234567890'']\<rparr>
        ''5555555555'' ''0987654321''
       = Inr \<lparr>name = Name ''John Doe'', phones = [Phone ''1234567890'']\<rparr>
   \<and> is_phone_valid ''0987654321''
   \<and> edit_phone
        \<lparr>name = Name ''John Doe'',
           phones = [Phone ''5555555555'', Phone ''1234567890'', Phone ''1234567890'']\<rparr>
        ''1234567890'' ''0987654321''
       = Inr \<lparr>name = Name ''John Doe'',
           phones = [Phone ''5555555555'', Phone ''0987654321'', Phone ''1234567890'']\<rparr>"
proof -
  let ?r = "\<lparr>name = Name ''John Doe'', phones = [Phone ''1234567890'']\<rparr>"
  let ?d = "\<lparr>name = Name ''John Doe'',
         phones = [Phone ''5555555555'', Phone ''1234567890'', Phone ''1234567890'']\<rparr>"
  have nv: "\<not> is_phone_valid ''09876x4321''"
    by (simp add: is_phone_valid_def isnumeric_def numeric_char_def)
  have v: "is_phone_valid ''0987654321''"
    by (simp add: is_phone_valid_def isnumeric_def numeric_char_def)
  have a: "\<forall>q\<in>set (phones ?r). field_value q \<noteq> ''5555555555''" by simp
  have s: "phones ?d = [Phone ''5555555555''] @ Phone ''1234567890'' # [Phone ''1234567890'']
      \<and> field_value (Phone ''1234567890'') = ''1234567890''
      \<and> (\<forall>q\<in>set [Phone ''5555555555'']. field_value q \<noteq> ''1234567890'')" by simp
  have 1: "edit_phone ?r ''1234567890'' ''09876x4321'' = Inr ?r"
    using edit_phone_noop_or_replace_first [of "''09876x4321''" ?r "''1234567890''"] nv
    by blast
  have 2: "edit_phone ?r ''5555555555'' ''0987654321'' = Inr ?r"
    using edit_phone_noop_or_replace_first [of "''0987654321''" ?r "''5555555555''"] a
    by blast
  have 3: "edit_phone ?d ''1234567890'' ''0987654321''
      = Inr (?d\<lparr>phones := [Phone ''5555555555''] @ Phone ''0987654321'' # [Phone ''1234567890'']\<rparr>)"
    using edit_phone_noop_or_replace_first [of "''0987654321''" ?d "''1234567890''"] v s
    by blast
  from 1 2 3 nv v show ?thesis by simp
qed

subsection \<open>C6: \<^verbatim>\<open>remove_phone\<close> removes the first match only\<close>

text \<open>
  C6: \<^verbatim>\<open>remove_phone(p)\<close> never raises; when a stored phone equals \<open>p\<close> it removes
  exactly the first such phone, so that the phones before it and all the phones after
  it, later duplicates of \<open>p\<close> included, stay in place and the list is one shorter;
  when no stored phone equals \<open>p\<close> the record is unchanged.
\<close>

theorem remove_phone_first_only:
  "(\<forall>xs ph ys. phones r = xs @ ph # ys \<and> field_value ph = p
        \<and> (\<forall>q\<in>set xs. field_value q \<noteq> p)
      \<longrightarrow> remove_phone r p = Inr (r\<lparr>phones := xs @ ys\<rparr>))
   \<and> ((\<forall>q\<in>set (phones r). field_value q \<noteq> p) \<longrightarrow> remove_phone r p = Inr r)
   \<and> (\<exists>r'. remove_phone r p = Inr r' \<and> name r' = name r
          \<and> length (phones r')
              = length (phones r) - (if p \<in> field_value ` set (phones r) then 1 else 0))"
proof (intro conjI allI impI)
  fix xs ph ys
  assume "phones r = xs @ ph # ys \<and> field_value ph = p \<and> (\<forall>q\<in>set xs. field_value q \<noteq> p)"
  then show "remove_phone r p = Inr (r\<lparr>phones := xs @ ys\<rparr>)"
    by (simp add: remove_phone_split)
next
  assume "\<forall>q\<in>set (phones r). field_value q \<noteq> p"
  then show "remove_phone r p = Inr r" by (rule remove_phone_absent)
next
  show "\<exists>r'. remove_phone r p = Inr r' \<and> name r' = name r
          \<and> length (phones r')
              = length (phones r) - (if p \<in> field_value ` set (phones r) then 1 else 0)"
  proof (cases "\<exists>q\<in>set (phones r). field_value q = p")
    case True
    then obtain xs ph ys where s: "phones r = xs @ ph # ys" "field_value ph = p"
        "\<forall>q\<in>set xs. field_value q \<noteq> p"
      using first_match_split by blast
    from True have "p \<in> field_value ` set (phones r)" by auto
    with s remove_phone_split [OF s] show ?thesis by simp
  next
    case False
    then have a: "\<forall>q\<in>set (phones r). field_value q \<noteq> p" by blast
    then have "p \<notin> field_value ` set (phones r)" by auto
    with remove_phone_absent [OF a] show ?thesis by simp
  qed
qed

theorem remove_phone_first_only_witness:
  "remove_phone
     \<lparr>name = Name ''John Doe'',
        phones = [Phone ''5555555555'', Phone ''1234567890'', Phone ''1234567890'']\<rparr>
     ''1234567890''
     = Inr \<lparr>name = Name ''John Doe'', phones = [Phone ''5555555555'', Phone ''1234567890'']\<rparr>
   \<and> remove_phone \<lparr>name = Name ''John Doe'', phones = [Phone ''1234567890'']\<rparr> ''5555555555''
     = Inr \<lparr>name = Name ''John Doe'', phones = [Phone ''1234567890'']\<rparr>"
proof -
  let ?r = "\<lparr>name = Name ''John Doe'', phones = [Phone ''1234567890'']\<rparr>"
  let ?d = "\<lparr>name = Name ''John Doe'',
         phones = [Phone ''5555555555'', Phone ''1234567890'', Phone ''1234567890'']\<rparr>"
  have a: "\<forall>q\<in>set (phones ?r). field_value q \<noteq> ''5555555555''" by simp
  have s: "phones ?d = [Phone ''5555555555''] @ Phone ''1234567890'' # [Phone ''1234567890'']
      \<and> field_value (Phone ''1234567890'') = ''1234567890''
      \<and> (\<forall>q\<in>set [Phone ''5555555555'']. field_value q \<noteq> ''1234567890'')" by simp
  have 1: "remove_phone ?d ''1234567890''
      = Inr (?d\<lparr>phones := [Phone ''5555555555''] @ [Phone ''1234567890'']\<rparr>)"
    using remove_phone_first_only [of ?d "''1234567890''"] s by blast
  have 2: "remove_phone ?r ''5555555555'' = Inr ?r"
    using remove_phone_first_only [of ?r "''5555555555''"] a by blast
  from 1 2 show ?thesis by simp
qed

subsection \<open>C7: adding, finding and deleting a record\<close>

text \<open>
  C7: after \<^verbatim>\<open>add_record(r)\<close>, \<^verbatim>\<open>find\<close> on the name of \<open>r\<close> returns \<open>r\<close>; after
  \<^verbatim>\<open>delete(n)\<close>, which never raises, \<^verbatim>\<open>find(n)\<close> returns absent; and \<^verbatim>\<open>delete(n)\<close>
  for a name that is not a key leaves the address book unchanged.
\<close>

theorem add_find_delete_record:
  "find_record (add_record b r) (field_value (name r)) = Some r
   \<and> (\<exists>b'. delete b n = Inr b' \<and> find_record b' n = None)
   \<and> (n \<notin> dom (data b) \<longrightarrow> delete b n = Inr b)"
  by (simp add: find_record_def add_record_def delete_total delete_absent)

theorem add_find_delete_record_witness:
  "''Jane Doe'' \<notin> dom (data AddressBook_init)
   \<and> delete AddressBook_init ''Jane Doe'' = Inr AddressBook_init
   \<and> find_record (add_record AddressBook_init (Record_init ''Jane Doe'')) ''Jane Doe''
       = Some (Record_init ''Jane Doe'')
   \<and> (\<exists>b'. delete (add_record AddressBook_init (Record_init ''Jane Doe'')) ''Jane Doe'' = Inr b'
          \<and> find_record b' ''Jane Doe'' = None)"
proof -
  let ?jane = "Record_init ''Jane Doe''"
  have h: "''Jane Doe'' \<notin> dom (data AddressBook_init)"
    by (simp add: AddressBook_init_def)
  have n: "field_value (name ?jane) = ''Jane Doe''"
    by (simp add: Record_init_def)
  from add_find_delete_record [of AddressBook_init ?jane "''Jane Doe''"] h
  have 1: "delete AddressBook_init ''Jane Doe'' = Inr AddressBook_init" by blast
  from add_find_delete_record [of AddressBook_init ?jane "''Jane Doe''"] n
  have 2: "find_record (add_record AddressBook_init ?jane) ''Jane Doe'' = Some ?jane"
    by simp
  from add_find_delete_record [of "add_record AddressBook_init ?jane" ?jane "''Jane Doe''"]
  have 3: "\<exists>b'. delete (add_record AddressBook_init ?jane) ''Jane Doe'' = Inr b'
          \<and> find_record b' ''Jane Doe'' = None" by blast
  from h 1 2 3 show ?thesis by blast
qed

subsection \<open>C8: a second record under the same name overwrites the first\<close>

text \<open>
  C8: for records \<open>r1\<close> and \<open>r2\<close> with the same name, after \<^verbatim>\<open>add_record(r1)\<close> and
  \<^verbatim>\<open>add_record(r2)\<close>, \<^verbatim>\<open>find\<close> on that name returns \<open>r2\<close>; the address book is the
  one that adding \<open>r2\<close> alone gives, so nothing of \<open>r1\<close> is merged; and \<open>r1\<close> is found
  under no key, unless it is \<open>r2\<close> itself or was already stored under another key.
\<close>

theorem add_record_overwrites:
  assumes "field_value (name r1) = field_value (name r2)"
  shows "find_record (add_record (add_record b r1) r2) (field_value (name r2)) = Some r2
     \<and> add_record (add_record b r1) r2 = add_record b r2
     \<and> (\<forall>k. find_record (add_record (add_record b r1) r2) k = Some r1
            \<longrightarrow> r1 = r2 \<or> (k \<noteq> field_value (name r1) \<and> find_record b k = Some r1))"
proof (intro conjI allI impI)
  show "find_record (add_record (add_record b r1) r2) (field_value (name r2)) = Some r2"
    by (simp add: find_record_def add_record_def)
  show "add_record (add_record b r1) r2 = add_record b r2"
    using assms by (simp add: add_record_def)
next
  fix k
  assume "find_record (add_record (add_record b r1) r2) k = Some r1"
  then show "r1 = r2 \<or> (k \<noteq> field_value (name r1) \<and> find_record b k = Some r1)"
    using assms by (simp add: find_record_def add_record_def split: if_splits)
qed

theorem add_record_overwrites_witness:
  "field_value (name \<lparr>name = Name ''Jane Doe'', phones = [Phone ''1234567890'']\<rparr>)
     = field_value (name (Record_init ''Jane Doe''))
   \<and> find_record
        (add_record
           (add_record AddressBook_init
              \<lparr>name = Name ''Jane Doe'', phones = [Phone ''1234567890'']\<rparr>)
           (Record_init ''Jane Doe''))
        ''Jane Doe''
       = Some \<lparr>name = Name ''Jane Doe'', phones = []\<rparr>"
proof -
  let ?r1 = "\<lparr>name = Name ''Jane Doe'', phones = [Phone ''1234567890'']\<rparr>"
  have h: "field_value (name ?r1) = field_value (name (Record_init ''Jane Doe''))"
    by (simp add: Record_init_def)
  from add_record_overwrites [OF h, of AddressBook_init]
  have 1: "find_record (add_record (add_record AddressBook_init ?r1) (Record_init ''Jane Doe''))
        (field_value (name (Record_init ''Jane Doe'')))
       = Some (Record_init ''Jane Doe'')"
    by blast
  have n: "field_value (name (Record_init ''Jane Doe'')) = ''Jane Doe''"
    by (simp add: Record_init_def)
  have i: "Record_init ''Jane Doe'' = \<lparr>name = Name ''Jane Doe'', phones = []\<rparr>"
    by (simp add: Record_init_def)
  from 1 have "find_record (add_record (add_record AddressBook_init ?r1) (Record_init ''Jane Doe''))
        ''Jane Doe''
       = Some \<lparr>name = Name ''Jane Doe'', phones = []\<rparr>"
    unfolding n by (simp only: i)
  with h show ?thesis by blast
qed

subsection \<open>C9: the display string\<close>

text \<open>
  C9: \<^verbatim>\<open>str(record)\<close> is \<^verbatim>\<open>Contact name: \<close>, the name, \<^verbatim>\<open>, phones: \<close> and the phone
  values joined by \<^verbatim>\<open>; \<close>; with no phones nothing follows \<^verbatim>\<open>phones: \<close>; a fresh
  record named John Doe displays as \<^verbatim>\<open>Contact name: John Doe, phones: \<close>.
\<close>

theorem str_Record_format:
  "str_Record r = display_format (field_value (name r)) (map field_value (phones r))
   \<and> (phones r = [] \<longrightarrow> str_Record r = ''Contact name: '' @ field_value (name r) @ '', phones: '')
   \<and> str_Record (Record_init ''John Doe'') = ''Contact name: John Doe, phones: ''"
proof (intro conjI impI)
  show "str_Record r = display_format (field_value (name r)) (map field_value (phones r))"
  proof (cases "phones r")
    case Nil
    then show ?thesis by (simp add: str_Record_def display_format_def)
  next
    case (Cons p rest)
    then show ?thesis
      unfolding str_Record_def display_format_def by (simp only: list.map join_Cons list.case)
  qed
next
  assume "phones r = []"
  then show "str_Record r = ''Contact name: '' @ field_value (name r) @ '', phones: ''"
    by (simp add: str_Record_def)
next
  show "str_Record (Record_init ''John Doe'') = ''Contact name: John Doe, phones: ''"
    by (simp add: str_Record_def Record_init_def)
qed

theorem str_Record_format_witness:
  "phones (Record_init ''Jane Doe'') = []
   \<and> str_Record (Record_init ''Jane Doe'') = ''Contact name: Jane Doe, phones: ''
   \<and> str_Record \<lparr>name = Name ''John Doe'', phones = [Phone ''1234567890'', Phone ''0987654321'']\<rparr>
       = ''Contact name: John Doe, phones: 1234567890; 0987654321''"
proof -
  let ?two = "\<lparr>name = Name ''John Doe'', phones = [Phone ''1234567890'', Phone ''0987654321'']\<rparr>"
  have h: "phones (Record_init ''Jane Doe'') = []"
    by (simp add: Record_init_def)
  from str_Record_format [of "Record_init ''Jane Doe''"] h
  have 1: "str_Record (Record_init ''Jane Doe'')
      = ''Contact name: '' @ field_value (name (Record_init ''Jane Doe'')) @ '', phones: ''"
    by blast
  from str_Record_format [of ?two]
  have 2: "str_Record ?two = display_format ''John Doe'' [''1234567890'', ''0987654321'']"
    by simp
  from h 1 2 show ?thesis
    by (simp add: Record_init_def display_format_def)
qed

subsection \<open>C10: the frame of the address book operations\<close>

text \<open>
  C10: \<^verbatim>\<open>add_record(r)\<close> leaves the entry of every key other than the name of \<open>r\<close>
  unchanged, and \<^verbatim>\<open>delete(n)\<close>, which never raises, leaves the entry of every key
  other than \<open>n\<close> unchanged; every record stored after either operation is the record
  just added or the record that was stored under that key before, with its name and
  phones as they were.
\<close>

theorem address_book_frame:
  "(field_value (name r) \<noteq> k \<longrightarrow> data (add_record b r) k = data b k)
   \<and> (n \<noteq> k \<longrightarrow> (\<exists>b'. delete b n = Inr b' \<and> data b' k = data b k))
   \<and> (\<forall>j r'. data (add_record b r) j = Some r' \<longrightarrow> r' = r \<or> data b j = Some r')
   \<and> (\<forall>b' j r'. delete b n = Inr b' \<and> data b' j = Some r' \<longrightarrow> data b j = Some r')"
proof (intro conjI allI impI)
  assume "field_value (name r) \<noteq> k"
  then show "data (add_record b r) k = data b k" by (simp add: add_record_def)
next
  assume "n \<noteq> k"
  then show "\<exists>b'. delete b n = Inr b' \<and> data b' k = data b k" by (simp add: delete_total)
next
  fix j r'
  assume "data (add_record b r) j = Some r'"
  then show "r' = r \<or> data b j = Some r'" by (simp add: add_record_def split: if_splits)
next
  fix b' j r'
  assume "delete b n = Inr b' \<and> data b' j = Some r'"
  then show "data b j = Some r'" by (auto simp: delete_total split: if_splits)
qed

theorem address_book_frame_witness:
  "field_value (name (Record_init ''John Doe'')) \<noteq> ''Jane Doe''
   \<and> data (add_record (add_record AddressBook_init (Record_init ''Jane Doe''))
             (Record_init ''John Doe''))
        ''Jane Doe'' = Some (Record_init ''Jane Doe'')
   \<and> ''John Doe'' \<noteq> ''Jane Doe''
   \<and> (\<exists>b'. delete (add_record AddressBook_init (Record_init ''Jane Doe'')) ''John Doe'' = Inr b'
          \<and> data b' ''Jane Doe'' = Some (Record_init ''Jane Doe''))"
proof -
  let ?b = "add_record AddressBook_init (Record_init ''Jane Doe'')"
  have h1: "field_value (name (Record_init ''John Doe'')) \<noteq> ''Jane Doe''"
    by (simp add: Record_init_def)
  have h2: "''John Doe'' \<noteq> ''Jane Doe''" by simp
  have d: "data ?b ''Jane Doe'' = Some (Record_init ''Jane Doe'')"
    by (simp add: add_record_def Record_init_def)
  from address_book_frame [of "Record_init ''John Doe''" "''Jane Doe''" ?b "''John Doe''"] h1 h2
  have "data (add_record ?b (Record_init ''John Doe'')) ''Jane Doe'' = data ?b ''Jane Doe''
     \<and> (\<exists>b'. delete ?b ''John Doe'' = Inr b' \<and> data b' ''Jane Doe'' = data ?b ''Jane Doe'')"
    by blast
  with h1 h2 d show ?thesis by simp
qed

end
